theory Spec2Isabelle
  imports Main "HOL-Library.Multiset"
begin

section \<open>Data model (internal/models/todo.go)\<close>

text \<open>
  \<^verbatim>\<open>type Todo struct { ID int; Contents string }\<close> and
  \<^verbatim>\<open>type TodoRequest struct { ID int; Contents string }\<close>.
  A Go string is a byte sequence; a HOL \<open>char\<close> is one byte. Identifiers and indices
  are Go \<open>int\<close>s (64 bits); they are modelled as \<open>int\<close>, and the one place where the
  source does arithmetic on an identifier (\<open>maxID + 1\<close> in \<open>getNextID\<close>) has the
  wrap-around written out. Indices are bounded by slice lengths and cannot overflow.
\<close>

record Todo =
  ID :: int
  Contents :: string

record TodoRequest =
  req_ID :: int
  req_Contents :: string

section \<open>Go runtime: panics, indexing, integer arithmetic\<close>

datatype panic = IndexOutOfRange | SliceBoundsOutOfRange | MakeCapOutOfRange

text \<open>\<open>xs[i]\<close>: panics unless \<open>0 \<le> i < len(xs)\<close>.\<close>

definition index :: "'a list \<Rightarrow> int \<Rightarrow> panic + 'a" where
  "index xs i =
     (if 0 \<le> i \<and> i < int (length xs) then Inr (xs ! nat i) else Inl IndexOutOfRange)"

text \<open>Go's \<open>/\<close> on integers truncates towards zero.\<close>

definition quot :: "int \<Rightarrow> int \<Rightarrow> int" where
  "quot a b =
     (if 0 \<le> a then (if 0 \<le> b then a div b else - (a div (- b)))
      else (if 0 \<le> b then - ((- a) div b) else (- a) div (- b)))"

text \<open>The value a 64-bit two's complement \<open>int\<close> holds after an operation whose
  mathematical result is \<open>x\<close>.\<close>

definition wrap_int :: "int \<Rightarrow> int" where
  "wrap_int x = (x + 2 ^ 63) mod 2 ^ 64 - 2 ^ 63"

section \<open>Sorted index (internal/service, binarySearchTodoByID and insertTodoSorted)\<close>

text \<open>
  The loop of \<open>binarySearchTodoByID\<close>, with \<open>left\<close> and \<open>right\<close> as loop state:
  \<^verbatim>\<open>
  for left <= right {
      mid := left + (right-left)/2
      midID := todos[mid].ID
      if midID == targetID { return mid }
      else if midID < targetID { left = mid + 1 }
      else { right = mid - 1 }
  }
  return -1
  \<close>
\<close>

function binarySearch_loop :: "Todo list \<Rightarrow> int \<Rightarrow> int \<Rightarrow> int \<Rightarrow> panic + int" where
  "binarySearch_loop todos targetID left right =
     (if left \<le> right then
        (let mid = left + quot (right - left) 2 in
         case index todos mid of
           Inl p \<Rightarrow> Inl p
         | Inr t \<Rightarrow>
             (let midID = ID t in
              if midID = targetID then Inr mid
              else if midID < targetID then binarySearch_loop todos targetID (mid + 1) right
              else binarySearch_loop todos targetID left (mid - 1)))
      else Inr (- 1))"
  by pat_completeness auto

termination binarySearch_loop
  by (relation "measure (\<lambda>(todos, targetID, left, right). nat (right - left + 1))")
     (auto simp: quot_def)

definition binarySearchTodoByID :: "Todo list \<Rightarrow> int \<Rightarrow> panic + int" where
  "binarySearchTodoByID todos targetID =
     binarySearch_loop todos targetID 0 (int (length todos) - 1)"

text \<open>
  The loop of \<open>insertTodoSorted\<close>:
  \<^verbatim>\<open>
  for left < right {
      mid := left + (right-left)/2
      if todos[mid].ID < newTodo.ID { left = mid + 1 } else { right = mid }
  }
  \<close>
\<close>

function insert_loop :: "Todo list \<Rightarrow> int \<Rightarrow> int \<Rightarrow> int \<Rightarrow> panic + int" where
  "insert_loop todos newID left right =
     (if left < right then
        (let mid = left + quot (right - left) 2 in
         case index todos mid of
           Inl p \<Rightarrow> Inl p
         | Inr t \<Rightarrow>
             (if ID t < newID then insert_loop todos newID (mid + 1) right
              else insert_loop todos newID left mid))
      else Inr left)"
  by pat_completeness auto

termination insert_loop
  by (relation "measure (\<lambda>(todos, newID, left, right). nat (right - left))")
     (auto simp: quot_def)

text \<open>
  Slice expressions \<open>xs[:hi]\<close> and \<open>xs[lo:]\<close>. Go checks the upper bound against the
  capacity; the model checks it against the length, which the capacity is never below,
  so the model panics wherever Go does.
\<close>

definition slice_to :: "'a list \<Rightarrow> int \<Rightarrow> panic + 'a list" where
  "slice_to xs hi =
     (if 0 \<le> hi \<and> hi \<le> int (length xs) then Inr (take (nat hi) xs)
      else Inl SliceBoundsOutOfRange)"

definition slice_from :: "'a list \<Rightarrow> int \<Rightarrow> panic + 'a list" where
  "slice_from xs lo =
     (if 0 \<le> lo \<and> lo \<le> int (length xs) then Inr (drop (nat lo) xs)
      else Inl SliceBoundsOutOfRange)"

text \<open>
  \<open>copy(dst, src)\<close> where \<open>dst\<close> is the window of \<open>arr\<close> that starts at \<open>lo\<close> and has
  \<open>n\<close> elements: \<open>min(len(dst), len(src))\<close> elements of \<open>src\<close> overwrite \<open>arr\<close> from
  \<open>lo\<close> on.
\<close>

definition copy_at :: "'a list \<Rightarrow> nat \<Rightarrow> nat \<Rightarrow> 'a list \<Rightarrow> 'a list" where
  "copy_at arr lo n src =
     (let k = min n (length src) in take lo arr @ take k src @ drop (lo + k) arr)"

text \<open>\<open>xs[i] = v\<close>.\<close>

definition assign :: "'a list \<Rightarrow> int \<Rightarrow> 'a \<Rightarrow> panic + 'a list" where
  "assign xs i v =
     (if 0 \<le> i \<and> i < int (length xs) then Inr (xs[nat i := v]) else Inl IndexOutOfRange)"

definition zero_Todo :: Todo where
  "zero_Todo = \<lparr>ID = 0, Contents = []\<rparr>"

text \<open>
  \<^verbatim>\<open>
  if len(todos) == 0 { return append(todos, newTodo) }
  left, right := 0, len(todos)
  for left < right { ... }
  result := make([]models.Todo, len(todos)+1)
  copy(result[:left], todos[:left])
  result[left] = newTodo
  copy(result[left+1:], todos[left:])
  return result
  \<close>
\<close>

definition insertTodoSorted :: "Todo list \<Rightarrow> Todo \<Rightarrow> panic + Todo list" where
  "insertTodoSorted todos newTodo =
     (if length todos = 0 then Inr (todos @ [newTodo])
      else
        (case insert_loop todos (ID newTodo) 0 (int (length todos)) of
           Inl p \<Rightarrow> Inl p
         | Inr left \<Rightarrow>
            (let result = replicate (length todos + 1) zero_Todo in
             (case slice_to result left of Inl p \<Rightarrow> Inl p | Inr dst1 \<Rightarrow>
             (case slice_to todos left of Inl p \<Rightarrow> Inl p | Inr src1 \<Rightarrow>
             (let result = copy_at result 0 (length dst1) src1 in
              (case assign result left newTodo of Inl p \<Rightarrow> Inl p | Inr result \<Rightarrow>
              (case slice_from result (left + 1) of Inl p \<Rightarrow> Inl p | Inr dst2 \<Rightarrow>
              (case slice_from todos left of Inl p \<Rightarrow> Inl p | Inr src2 \<Rightarrow>
               Inr (copy_at result (nat (left + 1)) (length dst2) src2))))))))))"

text \<open>
  The excision in \<open>DeleteTodo\<close> (the spec's \<open>removeAt\<close>):
  \<^verbatim>\<open>
  newTodos := make([]models.Todo, 0, len(todos)-1)
  newTodos = append(newTodos, todos[:index]...)
  newTodos = append(newTodos, todos[index+1:]...)
  \<close>
  \<open>make\<close> panics on a negative capacity.
\<close>

definition removeAt :: "Todo list \<Rightarrow> int \<Rightarrow> panic + Todo list" where
  "removeAt todos index' =
     (if int (length todos) - 1 < 0 then Inl MakeCapOutOfRange
      else
        (case slice_to todos index' of Inl p \<Rightarrow> Inl p | Inr front \<Rightarrow>
        (case slice_from todos (index' + 1) of Inl p \<Rightarrow> Inl p | Inr rear \<Rightarrow>
         Inr (([] @ front) @ rear))))"

text \<open>The sort invariant of the data model: strictly ascending by identifier.\<close>

definition strictly_ascending :: "Todo list \<Rightarrow> bool" where
  "strictly_ascending todos = sorted_wrt (\<lambda>a b. ID a < ID b) todos"

section \<open>ID allocator (getNextID)\<close>

text \<open>
  \<^verbatim>\<open>
  maxID := 0
  for _, todo := range todos { if todo.ID > maxID { maxID = todo.ID } }
  return maxID + 1
  \<close>
\<close>

fun getNextID_loop :: "int \<Rightarrow> Todo list \<Rightarrow> int" where
  "getNextID_loop maxID [] = maxID"
| "getNextID_loop maxID (todo # todos) =
     getNextID_loop (if ID todo > maxID then ID todo else maxID) todos"

definition getNextID :: "Todo list \<Rightarrow> int" where
  "getNextID todos = wrap_int (getNextID_loop 0 todos + 1)"

section \<open>Validation (strings.TrimSpace, validateTodoRequest)\<close>

text \<open>
  \<open>strings.TrimSpace\<close> removes the leading and the trailing runes for which
  \<open>unicode.IsSpace\<close> holds. On the bytes of the string these runes are exactly the
  following UTF-8 sequences: tab, line feed, vertical tab, form feed, carriage return,
  space, U+0085, U+00A0, U+1680, U+2000 to U+200A, U+2028, U+2029, U+202F, U+205F and
  U+3000.
\<close>

definition space_encodings :: "string list" where
  "space_encodings =
     [[CHR 0x09], [CHR 0x0A], [CHR 0x0B], [CHR 0x0C], [CHR 0x0D], [CHR 0x20],
      [CHR 0xC2, CHR 0x85], [CHR 0xC2, CHR 0xA0],
      [CHR 0xE1, CHR 0x9A, CHR 0x80],
      [CHR 0xE2, CHR 0x80, CHR 0x80], [CHR 0xE2, CHR 0x80, CHR 0x81],
      [CHR 0xE2, CHR 0x80, CHR 0x82], [CHR 0xE2, CHR 0x80, CHR 0x83],
      [CHR 0xE2, CHR 0x80, CHR 0x84], [CHR 0xE2, CHR 0x80, CHR 0x85],
      [CHR 0xE2, CHR 0x80, CHR 0x86], [CHR 0xE2, CHR 0x80, CHR 0x87],
      [CHR 0xE2, CHR 0x80, CHR 0x88], [CHR 0xE2, CHR 0x80, CHR 0x89],
      [CHR 0xE2, CHR 0x80, CHR 0x8A],
      [CHR 0xE2, CHR 0x80, CHR 0xA8], [CHR 0xE2, CHR 0x80, CHR 0xA9],
      [CHR 0xE2, CHR 0x80, CHR 0xAF], [CHR 0xE2, CHR 0x81, CHR 0x9F],
      [CHR 0xE3, CHR 0x80, CHR 0x80]]"

text \<open>The width of the white-space rune the string starts with (ends with); 0 if it
  starts (ends) with none.\<close>

definition leading_space :: "string \<Rightarrow> nat" where
  "leading_space s =
     (case filter (\<lambda>w. take (length w) s = w) space_encodings of
        [] \<Rightarrow> 0 | w # _ \<Rightarrow> length w)"

definition trailing_space :: "string \<Rightarrow> nat" where
  "trailing_space s =
     (case filter (\<lambda>w. length w \<le> length s \<and> drop (length s - length w) s = w)
             space_encodings of
        [] \<Rightarrow> 0 | w # _ \<Rightarrow> length w)"

function TrimLeft :: "string \<Rightarrow> string" where
  "TrimLeft s = (if leading_space s = 0 then s else TrimLeft (drop (leading_space s) s))"
  by pat_completeness auto

termination TrimLeft
proof (relation "measure length")
  fix s :: string
  assume "leading_space s \<noteq> 0"
  then have "s \<noteq> []"
    by (auto simp: leading_space_def space_encodings_def)
  with \<open>leading_space s \<noteq> 0\<close> show "(drop (leading_space s) s, s) \<in> measure length"
    by simp
qed simp

function TrimRight :: "string \<Rightarrow> string" where
  "TrimRight s =
     (if trailing_space s = 0 then s else TrimRight (take (length s - trailing_space s) s))"
  by pat_completeness auto

termination TrimRight
proof (relation "measure length")
  fix s :: string
  assume "trailing_space s \<noteq> 0"
  then have "s \<noteq> []"
    by (auto simp: trailing_space_def space_encodings_def)
  with \<open>trailing_space s \<noteq> 0\<close> show "(take (length s - trailing_space s) s, s) \<in> measure length"
    by simp
qed simp

definition TrimSpace :: "string \<Rightarrow> string" where
  "TrimSpace s = TrimRight (TrimLeft s)"

section \<open>Persistence layer (loadTodos, saveTodos)\<close>

text \<open>
  The backing file and the ways the operating system can fail. \<open>encoding/json\<close> is not
  code of this repository: a file that \<open>Decode\<close> reads as an array of records is
  represented by that array, in the order of the file, and every other content by
  \<open>Malformed\<close>. Every string \<open>Decode\<close> returns is valid UTF-8. The three flags say
  whether \<open>os.Open\<close> fails with an error other than "does not exist", whether
  \<open>os.Create\<close> fails, and whether the write of the encoder fails after the file was
  created (and truncated).
\<close>

datatype payload = TodoArray "Todo list" | Malformed

record store =
  backing_file :: "payload option"
  open_fails :: bool
  create_fails :: bool
  write_fails :: bool

datatype io_error = OpenError | DecodeError | CreateError | EncodeError

text \<open>
  \<open>sort.Slice(todos, func(i, j) { return todos[i].ID < todos[j].ID })\<close>: the result is a
  permutation of the slice in which no element has a smaller identifier than an earlier
  one. Go leaves the order of elements with equal identifiers open; \<open>sort_key\<close> keeps
  them in their order.
\<close>

definition loadTodos :: "store \<Rightarrow> io_error + Todo list" where
  "loadTodos st =
     (if open_fails st then Inl OpenError
      else
        case backing_file st of
          None \<Rightarrow> Inr []
        | Some Malformed \<Rightarrow> Inl DecodeError
        | Some (TodoArray todos) \<Rightarrow> Inr (sort_key ID todos))"

text \<open>
  What \<open>Encode\<close> writes for a string, read back by \<open>Decode\<close>. The encoder walks the
  bytes of the string with \<open>utf8.DecodeRuneInString\<close>: a byte at which no valid
  encoding of a rune starts is written as \<open>\ufffd\<close>, which reads back as the three
  bytes of U+FFFD, and the encoder goes on at the next byte; the bytes of a valid rune
  are written so that they read back as they are.

  \<open>rune_width\<close> is the size \<open>utf8.DecodeRuneInString\<close> returns with a valid rune at the
  head of a string that is not empty, and 0 where it returns \<open>RuneError\<close> with size 1:
  the first byte selects the size and the range of the second byte, the other bytes
  are continuation bytes.
\<close>

definition rune_width :: "string \<Rightarrow> nat" where
  "rune_width s =
     (case map of_char s of
        [] \<Rightarrow> 0
      | s0 # rest \<Rightarrow>
          if s0 < (0x80 :: nat) then 1
          else if s0 < 0xC2 \<or> 0xF4 < s0 then 0
          else
            (let sz = (if s0 < 0xE0 then 2 else if s0 < 0xF0 then 3 else 4 :: nat);
                 lo = (if s0 = 0xE0 then 0xA0 else if s0 = 0xF0 then 0x90 else 0x80);
                 hi = (if s0 = 0xED then 0x9F else if s0 = 0xF4 then 0x8F else 0xBF)
             in if length s < sz then 0
                else if rest ! 0 < lo \<or> hi < rest ! 0 then 0
                else if sz \<le> 2 then 2
                else if rest ! 1 < 0x80 \<or> 0xBF < rest ! 1 then 0
                else if sz \<le> 3 then 3
                else if rest ! 2 < 0x80 \<or> 0xBF < rest ! 2 then 0
                else 4))"

function coerceUTF8 :: "string \<Rightarrow> string" where
  "coerceUTF8 s =
     (if s = [] then []
      else if rune_width s = 0 then [CHR 0xEF, CHR 0xBF, CHR 0xBD] @ coerceUTF8 (drop 1 s)
      else take (rune_width s) s @ coerceUTF8 (drop (rune_width s) s))"
  by pat_completeness auto

termination coerceUTF8
  by (relation "measure length") auto

text \<open>\<open>utf8.ValidString\<close>: the string is a sequence of valid encodings of runes.\<close>

function validUTF8 :: "string \<Rightarrow> bool" where
  "validUTF8 s =
     (if s = [] then True
      else if rune_width s = 0 then False
      else validUTF8 (drop (rune_width s) s))"
  by pat_completeness auto

termination validUTF8
  by (relation "measure length") auto

text \<open>A record as \<open>Decode\<close> reads it back after \<open>Encode\<close> wrote it.\<close>

definition stored_Todo :: "Todo \<Rightarrow> Todo" where
  "stored_Todo todo = todo\<lparr>Contents := coerceUTF8 (Contents todo)\<rparr>"

definition saveTodos :: "store \<Rightarrow> Todo list \<Rightarrow> io_error option \<times> store" where
  "saveTodos st todos =
     (if create_fails st then (Some CreateError, st)
      else if write_fails st then (Some EncodeError, st\<lparr>backing_file := Some Malformed\<rparr>)
      else (None, st\<lparr>backing_file := Some (TodoArray (map stored_Todo todos))\<rparr>))"

section \<open>Service operations\<close>

datatype error =
    ContentsEmpty
  | NotFound int
  | FailedToLoad io_error
  | FailedToSave io_error
  | RuntimePanic panic

definition validateTodoRequest :: "TodoRequest \<Rightarrow> error option" where
  "validateTodoRequest req =
     (if TrimSpace (req_Contents req) = [] then Some ContentsEmpty else None)"

definition GetAllTodos :: "store \<Rightarrow> io_error + Todo list" where
  "GetAllTodos st = loadTodos st"

text \<open>
  Each write operation is split where the source releases the read lock that
  \<open>loadTodos\<close> holds: the first part validates and loads, the \<open>_loaded\<close> part is the rest
  of the function body, run on the store as it is when \<open>saveTodos\<close> takes the write lock.
\<close>

definition CreateTodo_loaded ::
  "store \<Rightarrow> TodoRequest \<Rightarrow> Todo list \<Rightarrow> (error + Todo) \<times> store" where
  "CreateTodo_loaded st req todos =
     (let newTodo = \<lparr>ID = getNextID todos, Contents = TrimSpace (req_Contents req)\<rparr> in
      case insertTodoSorted todos newTodo of
        Inl p \<Rightarrow> (Inl (RuntimePanic p), st)
      | Inr todos' \<Rightarrow>
          (case saveTodos st todos' of
             (Some e, st') \<Rightarrow> (Inl (FailedToSave e), st')
           | (None, st') \<Rightarrow> (Inr newTodo, st')))"

definition CreateTodo :: "store \<Rightarrow> TodoRequest \<Rightarrow> (error + Todo) \<times> store" where
  "CreateTodo st req =
     (case validateTodoRequest req of
        Some e \<Rightarrow> (Inl e, st)
      | None \<Rightarrow>
          (case loadTodos st of
             Inl e \<Rightarrow> (Inl (FailedToLoad e), st)
           | Inr todos \<Rightarrow> CreateTodo_loaded st req todos))"

definition UpdateTodo_loaded ::
  "store \<Rightarrow> int \<Rightarrow> TodoRequest \<Rightarrow> Todo list \<Rightarrow> (error + Todo) \<times> store" where
  "UpdateTodo_loaded st id' req todos =
     (case binarySearchTodoByID todos id' of
        Inl p \<Rightarrow> (Inl (RuntimePanic p), st)
      | Inr index' \<Rightarrow>
          if index' = - 1 then (Inl (NotFound id'), st)
          else
            (case index todos index' of
               Inl p \<Rightarrow> (Inl (RuntimePanic p), st)
             | Inr t \<Rightarrow>
                (case assign todos index' (t\<lparr>Contents := TrimSpace (req_Contents req)\<rparr>) of
                   Inl p \<Rightarrow> (Inl (RuntimePanic p), st)
                 | Inr todos' \<Rightarrow>
                    (case index todos' index' of
                       Inl p \<Rightarrow> (Inl (RuntimePanic p), st)
                     | Inr updatedTodo \<Rightarrow>
                        (case saveTodos st todos' of
                           (Some e, st') \<Rightarrow> (Inl (FailedToSave e), st')
                         | (None, st') \<Rightarrow> (Inr updatedTodo, st'))))))"

definition UpdateTodo :: "store \<Rightarrow> int \<Rightarrow> TodoRequest \<Rightarrow> (error + Todo) \<times> store" where
  "UpdateTodo st id' req =
     (case validateTodoRequest req of
        Some e \<Rightarrow> (Inl e, st)
      | None \<Rightarrow>
          (case loadTodos st of
             Inl e \<Rightarrow> (Inl (FailedToLoad e), st)
           | Inr todos \<Rightarrow> UpdateTodo_loaded st id' req todos))"

definition DeleteTodo_loaded :: "store \<Rightarrow> int \<Rightarrow> Todo list \<Rightarrow> error option \<times> store" where
  "DeleteTodo_loaded st id' todos =
     (case binarySearchTodoByID todos id' of
        Inl p \<Rightarrow> (Some (RuntimePanic p), st)
      | Inr index' \<Rightarrow>
          if index' = - 1 then (Some (NotFound id'), st)
          else
            (case removeAt todos index' of
               Inl p \<Rightarrow> (Some (RuntimePanic p), st)
             | Inr newTodos \<Rightarrow>
                (case saveTodos st newTodos of
                   (Some e, st') \<Rightarrow> (Some (FailedToSave e), st')
                 | (None, st') \<Rightarrow> (None, st'))))"

definition DeleteTodo :: "store \<Rightarrow> int \<Rightarrow> error option \<times> store" where
  "DeleteTodo st id' =
     (case loadTodos st of
        Inl e \<Rightarrow> (Some (FailedToLoad e), st)
      | Inr todos \<Rightarrow> DeleteTodo_loaded st id' todos)"

definition empty_store :: store where
  "empty_store = \<lparr>backing_file = None, open_fails = False, create_fails = False, write_fails = False\<rparr>"

section \<open>Concurrent callers\<close>

text \<open>
  \<open>loadTodos\<close> holds the read lock of the service's \<open>sync.RWMutex\<close> from its first to its
  last statement, \<open>saveTodos\<close> the write lock; no other statement of the service runs
  under a lock. A write lock excludes every other section and read sections do not
  change the store, so an execution of several callers is an interleaving of these
  sections. A caller is \<open>Pending\<close> before its call of \<open>loadTodos\<close>, \<open>Loaded\<close> with the
  sequence it read between the two locks, and \<open>Finished\<close> afterwards.
\<close>

datatype operation = Create TodoRequest | Update int TodoRequest | Delete int

datatype outcome = Failed error | Returned Todo | Succeeded

datatype caller = Pending operation | Loaded operation "Todo list" | Finished outcome

fun read_section :: "store \<Rightarrow> operation \<Rightarrow> caller" where
  "read_section st (Create req) =
     (case validateTodoRequest req of
        Some e \<Rightarrow> Finished (Failed e)
      | None \<Rightarrow>
          (case loadTodos st of
             Inl e \<Rightarrow> Finished (Failed (FailedToLoad e))
           | Inr todos \<Rightarrow> Loaded (Create req) todos))"
| "read_section st (Update id' req) =
     (case validateTodoRequest req of
        Some e \<Rightarrow> Finished (Failed e)
      | None \<Rightarrow>
          (case loadTodos st of
             Inl e \<Rightarrow> Finished (Failed (FailedToLoad e))
           | Inr todos \<Rightarrow> Loaded (Update id' req) todos))"
| "read_section st (Delete id') =
     (case loadTodos st of
        Inl e \<Rightarrow> Finished (Failed (FailedToLoad e))
      | Inr todos \<Rightarrow> Loaded (Delete id') todos)"

fun write_section :: "store \<Rightarrow> operation \<Rightarrow> Todo list \<Rightarrow> caller \<times> store" where
  "write_section st (Create req) todos =
     (case CreateTodo_loaded st req todos of
        (Inl e, st') \<Rightarrow> (Finished (Failed e), st')
      | (Inr t, st') \<Rightarrow> (Finished (Returned t), st'))"
| "write_section st (Update id' req) todos =
     (case UpdateTodo_loaded st id' req todos of
        (Inl e, st') \<Rightarrow> (Finished (Failed e), st')
      | (Inr t, st') \<Rightarrow> (Finished (Returned t), st'))"
| "write_section st (Delete id') todos =
     (case DeleteTodo_loaded st id' todos of
        (Some e, st') \<Rightarrow> (Finished (Failed e), st')
      | (None, st') \<Rightarrow> (Finished Succeeded, st'))"

text \<open>Caller \<open>i\<close> runs its next section.\<close>

definition step :: "nat \<Rightarrow> store \<times> caller list \<Rightarrow> store \<times> caller list" where
  "step i cfg =
     (case cfg of (st, callers) \<Rightarrow>
        if i < length callers then
          (case callers ! i of
             Pending op \<Rightarrow> (st, callers[i := read_section st op])
           | Loaded op todos \<Rightarrow>
               (case write_section st op todos of
                  (c, st') \<Rightarrow> (st', callers[i := c]))
           | Finished r \<Rightarrow> (st, callers))
        else (st, callers))"

definition run :: "nat list \<Rightarrow> store \<times> caller list \<Rightarrow> store \<times> caller list" where
  "run schedule cfg = fold step schedule cfg"

text \<open>A call that no other caller interleaves with, as an outcome.\<close>

definition sequential :: "store \<Rightarrow> operation \<Rightarrow> outcome \<times> store" where
  "sequential st op =
     (case op of
        Create req \<Rightarrow>
          (case CreateTodo st req of
             (Inl e, st') \<Rightarrow> (Failed e, st') | (Inr t, st') \<Rightarrow> (Returned t, st'))
      | Update id' req \<Rightarrow>
          (case UpdateTodo st id' req of
             (Inl e, st') \<Rightarrow> (Failed e, st') | (Inr t, st') \<Rightarrow> (Returned t, st'))
      | Delete id' \<Rightarrow>
          (case DeleteTodo st id' of
             (Some e, st') \<Rightarrow> (Failed e, st') | (None, st') \<Rightarrow> (Succeeded, st')))"

section \<open>Properties of the sorted index\<close>

declare binarySearch_loop.simps [simp del] insert_loop.simps [simp del]
declare TrimLeft.simps [simp del] TrimRight.simps [simp del]
declare coerceUTF8.simps [simp del] validUTF8.simps [simp del]

lemma quot_nonneg: "0 \<le> a \<Longrightarrow> quot a 2 = a div 2"
  by (simp add: quot_def)

lemma index_in_range: "0 \<le> i \<Longrightarrow> i < int (length xs) \<Longrightarrow> index xs i = Inr (xs ! nat i)"
  by (simp add: index_def)

lemma binarySearch_loop_sound:
  "0 \<le> left \<Longrightarrow> right < int (length todos) \<Longrightarrow>
   \<exists>i. binarySearch_loop todos targetID left right = Inr i \<and>
       (i = - 1 \<or> (left \<le> i \<and> i \<le> right \<and> ID (todos ! nat i) = targetID))"
proof (induction todos targetID left right rule: binarySearch_loop.induct)
  case (1 todos targetID left right)
  show ?case
  proof (cases "left \<le> right")
    case False
    then show ?thesis by (subst binarySearch_loop.simps) simp
  next
    case True
    define mid where "mid = left + quot (right - left) 2"
    have mid: "left \<le> mid" "mid \<le> right"
      using True by (simp_all add: mid_def quot_nonneg)
    have idx: "index todos mid = Inr (todos ! nat mid)"
      using mid "1.prems" by (simp add: index_in_range)
    consider (eq) "ID (todos ! nat mid) = targetID"
      | (lt) "ID (todos ! nat mid) < targetID"
      | (gt) "targetID < ID (todos ! nat mid)"
      by linarith
    then show ?thesis
    proof cases
      case eq
      have "binarySearch_loop todos targetID left right = Inr mid"
        using True idx eq by (subst binarySearch_loop.simps) (simp add: mid_def)
      with mid eq show ?thesis by simp
    next
      case lt
      have step: "binarySearch_loop todos targetID left right =
                  binarySearch_loop todos targetID (mid + 1) right"
        using True idx lt by (subst binarySearch_loop.simps) (simp add: mid_def)
      have "\<exists>i. binarySearch_loop todos targetID (mid + 1) right = Inr i \<and>
         (i = - 1 \<or> (mid + 1 \<le> i \<and> i \<le> right \<and> ID (todos ! nat i) = targetID))"
        using "1.IH"(1) [OF True mid_def idx refl] lt mid "1.prems" by simp
      with step mid show ?thesis by auto
    next
      case gt
      have step: "binarySearch_loop todos targetID left right =
                  binarySearch_loop todos targetID left (mid - 1)"
        using True idx gt by (subst binarySearch_loop.simps) (simp add: mid_def)
      have "\<exists>i. binarySearch_loop todos targetID left (mid - 1) = Inr i \<and>
         (i = - 1 \<or> (left \<le> i \<and> i \<le> mid - 1 \<and> ID (todos ! nat i) = targetID))"
        using "1.IH"(2) [OF True mid_def idx refl] gt mid "1.prems" by simp
      with step mid show ?thesis by auto
    qed
  qed
qed

lemma binarySearch_loop_complete:
  "sorted_wrt (\<lambda>a b. ID a < ID b) todos \<Longrightarrow> 0 \<le> left \<Longrightarrow> right < int (length todos) \<Longrightarrow>
   left \<le> j \<Longrightarrow> j \<le> right \<Longrightarrow> ID (todos ! nat j) = targetID \<Longrightarrow>
   binarySearch_loop todos targetID left right \<noteq> Inr (- 1)"
proof (induction todos targetID left right rule: binarySearch_loop.induct)
  case (1 todos targetID left right)
  have nth_less: "\<And>a b. 0 \<le> a \<Longrightarrow> a < b \<Longrightarrow> b < int (length todos) \<Longrightarrow>
      ID (todos ! nat a) < ID (todos ! nat b)"
    using "1.prems"(1) by (simp add: sorted_wrt_iff_nth_less)
  have True: "left \<le> right" using "1.prems" by simp
  define mid where "mid = left + quot (right - left) 2"
  have mid: "left \<le> mid" "mid \<le> right"
    using True by (simp_all add: mid_def quot_nonneg)
  have idx: "index todos mid = Inr (todos ! nat mid)"
    using mid "1.prems" by (simp add: index_in_range)
  consider (eq) "ID (todos ! nat mid) = targetID"
    | (lt) "ID (todos ! nat mid) < targetID"
    | (gt) "targetID < ID (todos ! nat mid)"
    by linarith
  then show ?case
  proof cases
    case eq
    have "binarySearch_loop todos targetID left right = Inr mid"
      using True idx eq by (subst binarySearch_loop.simps) (simp add: mid_def)
    with mid "1.prems" show ?thesis by simp
  next
    case lt
    have step: "binarySearch_loop todos targetID left right =
                binarySearch_loop todos targetID (mid + 1) right"
      using True idx lt by (subst binarySearch_loop.simps) (simp add: mid_def)
    have "mid < j"
    proof (rule ccontr)
      assume "\<not> mid < j"
      then have "j = mid \<or> j < mid" by linarith
      then show False
        using nth_less [of j mid] lt "1.prems" mid by auto
    qed
    then have "binarySearch_loop todos targetID (mid + 1) right \<noteq> Inr (- 1)"
      using "1.IH"(1) [OF True mid_def idx refl] lt mid "1.prems" by simp
    with step show ?thesis by simp
  next
    case gt
    have step: "binarySearch_loop todos targetID left right =
                binarySearch_loop todos targetID left (mid - 1)"
      using True idx gt by (subst binarySearch_loop.simps) (simp add: mid_def)
    have "j < mid"
    proof (rule ccontr)
      assume "\<not> j < mid"
      then have "j = mid \<or> mid < j" by linarith
      then show False
        using nth_less [of mid j] gt "1.prems" mid by auto
    qed
    then have "binarySearch_loop todos targetID left (mid - 1) \<noteq> Inr (- 1)"
      using "1.IH"(2) [OF True mid_def idx refl] gt mid "1.prems" by simp
    with step show ?thesis by simp
  qed
qed

text \<open>
  Claim C1. On a sequence that is strictly ascending by identifier,
  \<open>binarySearchTodoByID\<close> returns without a panic; it returns \<open>-1\<close> exactly when no
  record has the identifier looked for, and every other result is an index into the
  sequence at which the record has that identifier.
\<close>

theorem binarySearchTodoByID_correct:
  assumes "strictly_ascending S"
  shows "\<exists>i. binarySearchTodoByID S t = Inr i \<and>
             ((i = - 1) = (t \<notin> ID ` set S)) \<and>
             (i \<noteq> - 1 \<longrightarrow> 0 \<le> i \<and> i < int (length S) \<and> ID (S ! nat i) = t)"
proof -
  have sorted: "sorted_wrt (\<lambda>a b. ID a < ID b) S"
    using assms by (simp add: strictly_ascending_def)
  obtain i where i: "binarySearchTodoByID S t = Inr i"
    and found: "i = - 1 \<or> (0 \<le> i \<and> i \<le> int (length S) - 1 \<and> ID (S ! nat i) = t)"
    using binarySearch_loop_sound [of 0 "int (length S) - 1" S t]
    by (auto simp: binarySearchTodoByID_def)
  have absent: "t \<notin> ID ` set S" if "i = - 1"
  proof
    assume "t \<in> ID ` set S"
    then obtain k where k: "k < length S" "ID (S ! k) = t"
      by (auto simp: in_set_conv_nth)
    then have "binarySearch_loop S t 0 (int (length S) - 1) \<noteq> Inr (- 1)"
      using binarySearch_loop_complete [OF sorted, of 0 "int (length S) - 1" "int k" t]
      by simp
    with i that show False by (simp add: binarySearchTodoByID_def)
  qed
  have present: "t \<in> ID ` set S" if "i \<noteq> - 1"
  proof -
    from found that have "nat i < length S" "ID (S ! nat i) = t" by auto
    then show ?thesis by (metis imageI nth_mem)
  qed
  from i found absent present show ?thesis by auto
qed

theorem binarySearchTodoByID_correct_witness:
  "strictly_ascending
     [\<lparr>ID = 1, Contents = ''a''\<rparr>, \<lparr>ID = 3, Contents = ''b''\<rparr>, \<lparr>ID = 5, Contents = ''c''\<rparr>] \<and>
   (\<exists>i. binarySearchTodoByID
          [\<lparr>ID = 1, Contents = ''a''\<rparr>, \<lparr>ID = 3, Contents = ''b''\<rparr>, \<lparr>ID = 5, Contents = ''c''\<rparr>]
          3 = Inr i \<and> i \<noteq> - 1 \<and> 0 \<le> i \<and> i < 3)"
proof -
  have h: "strictly_ascending
     [\<lparr>ID = 1, Contents = ''a''\<rparr>, \<lparr>ID = 3, Contents = ''b''\<rparr>, \<lparr>ID = 5, Contents = ''c''\<rparr>]"
    by (simp add: strictly_ascending_def)
  show ?thesis
    using h binarySearchTodoByID_correct [OF h, of 3] by auto
qed

lemma insert_loop_correct:
  "sorted_wrt (\<lambda>a b. ID a < ID b) todos \<Longrightarrow> 0 \<le> left \<Longrightarrow> left \<le> right \<Longrightarrow>
   right \<le> int (length todos) \<Longrightarrow>
   (\<forall>k. int k < left \<longrightarrow> ID (todos ! k) < newID) \<Longrightarrow>
   (\<forall>k. right \<le> int k \<and> k < length todos \<longrightarrow> newID \<le> ID (todos ! k)) \<Longrightarrow>
   \<exists>p. insert_loop todos newID left right = Inr (int p) \<and> p \<le> length todos \<and>
       (\<forall>k < p. ID (todos ! k) < newID) \<and>
       (\<forall>k. p \<le> k \<and> k < length todos \<longrightarrow> newID \<le> ID (todos ! k))"
proof (induction todos newID left right rule: insert_loop.induct)
  case (1 todos newID left right)
  have nth_less: "\<And>a b. a < b \<Longrightarrow> b < length todos \<Longrightarrow> ID (todos ! a) < ID (todos ! b)"
    using "1.prems"(1) by (simp add: sorted_wrt_iff_nth_less)
  show ?case
  proof (cases "left < right")
    case False
    with "1.prems" have eq: "left = right" by simp
    have "insert_loop todos newID left right = Inr left"
      using False by (subst insert_loop.simps) simp
    moreover have "left = int (nat left)" using "1.prems" by simp
    ultimately show ?thesis
      using "1.prems" eq
      by (intro exI [of _ "nat left"]) auto
  next
    case True
    define mid where "mid = left + quot (right - left) 2"
    have mid: "left \<le> mid" "mid < right"
      using True by (simp_all add: mid_def quot_nonneg)
    have idx: "index todos mid = Inr (todos ! nat mid)"
      using mid "1.prems" by (simp add: index_in_range)
    show ?thesis
    proof (cases "ID (todos ! nat mid) < newID")
      case lt: True
      have step: "insert_loop todos newID left right = insert_loop todos newID (mid + 1) right"
        using True idx lt by (subst insert_loop.simps) (simp add: mid_def)
      have below: "\<forall>k. int k < mid + 1 \<longrightarrow> ID (todos ! k) < newID"
      proof (intro allI impI)
        fix k assume "int k < mid + 1"
        then have "k = nat mid \<or> k < nat mid" by linarith
        then show "ID (todos ! k) < newID"
          using nth_less [of k "nat mid"] lt mid "1.prems"(4) by force
      qed
      show ?thesis
        unfolding step
        using "1.IH"(1) [OF True mid_def idx lt "1.prems"(1)] below mid "1.prems"
        by simp
    next
      case ge: False
      have step: "insert_loop todos newID left right = insert_loop todos newID left mid"
        using True idx ge by (subst insert_loop.simps) (simp add: mid_def)
      have above: "\<forall>k. mid \<le> int k \<and> k < length todos \<longrightarrow> newID \<le> ID (todos ! k)"
      proof (intro allI impI)
        fix k assume k: "mid \<le> int k \<and> k < length todos"
        then have "k = nat mid \<or> nat mid < k" by linarith
        then show "newID \<le> ID (todos ! k)"
          using nth_less [of "nat mid" k] ge k by force
      qed
      show ?thesis
        unfolding step
        using "1.IH"(2) [OF True mid_def idx ge "1.prems"(1)] above mid "1.prems"
        by simp
    qed
  qed
qed

lemma insertTodoSorted_at:
  assumes "insert_loop todos (ID newTodo) 0 (int (length todos)) = Inr (int p)"
    and "p \<le> length todos" and "todos \<noteq> []"
  shows "insertTodoSorted todos newTodo = Inr (take p todos @ [newTodo] @ drop p todos)"
proof -
  define m where "m = length todos + 1"
  have pm: "p < m" "m - p = Suc (length todos - p)" "length todos = m - 1"
    using assms(2) by (simp_all add: m_def)
  let ?r0 = "replicate m zero_Todo"
  have s1: "slice_to ?r0 (int p) = Inr (replicate p zero_Todo)"
    using pm(1) by (simp add: slice_to_def min_def)
  have s2: "slice_to todos (int p) = Inr (take p todos)"
    using assms(2) by (simp add: slice_to_def)
  let ?r1 = "copy_at ?r0 0 (length (replicate p zero_Todo)) (take p todos)"
  have r1: "?r1 = take p todos @ replicate (m - p) zero_Todo"
    using assms(2) by (simp add: copy_at_def min_def)
  let ?r2 = "take p todos @ newTodo # replicate (length todos - p) zero_Todo"
  have a: "assign ?r1 (int p) newTodo = Inr ?r2"
    using assms(2) pm(1) unfolding r1 pm(2)
    by (simp add: assign_def list_update_append)
  have s3: "slice_from ?r2 (int p + 1) = Inr (replicate (length todos - p) zero_Todo)"
    using assms(2) by (simp add: slice_from_def nat_add_distrib)
  have s4: "slice_from todos (int p) = Inr (drop p todos)"
    using assms(2) by (simp add: slice_from_def)
  have r3: "copy_at ?r2 (nat (int p + 1)) (length (replicate (length todos - p) zero_Todo))
              (drop p todos)
            = take p todos @ [newTodo] @ drop p todos"
    using assms(2) by (simp add: copy_at_def nat_add_distrib)
  have "length todos \<noteq> 0" using assms(3) by simp
  then show ?thesis
    unfolding insertTodoSorted_def m_def [symmetric]
    by (simp only: assms(1) s1 s2 Let_def sum.case a s3 s4 r3 if_False)
qed


lemma strictly_ascending_distinct: "strictly_ascending xs \<Longrightarrow> distinct xs"
  unfolding strictly_ascending_def by (induction xs) auto

lemma strictly_ascending_insert:
  assumes "strictly_ascending S" and "p \<le> length S"
    and below: "\<forall>k<p. ID (S ! k) < ID r"
    and above: "\<forall>k. p \<le> k \<and> k < length S \<longrightarrow> ID r < ID (S ! k)"
  shows "strictly_ascending (take p S @ [r] @ drop p S)"
proof -
  have sorted: "sorted_wrt (\<lambda>a b. ID a < ID b) S"
    using assms(1) by (simp add: strictly_ascending_def)
  have front: "ID x < ID r" if "x \<in> set (take p S)" for x
  proof -
    from that obtain k where "k < length (take p S)" "x = take p S ! k"
      by (auto simp: in_set_conv_nth)
    then show ?thesis using below by simp
  qed
  have rear: "ID r < ID y" if "y \<in> set (drop p S)" for y
  proof -
    from that obtain k where "k < length (drop p S)" "y = drop p S ! k"
      by (auto simp: in_set_conv_nth)
    then show ?thesis using above assms(2) by simp
  qed
  have cross: "ID x < ID y" if "x \<in> set (take p S)" "y \<in> set (drop p S)" for x y
    using front [OF that(1)] rear [OF that(2)] by simp
  show ?thesis
    unfolding strictly_ascending_def
    using sorted front rear cross
    by (simp add: sorted_wrt_append)
qed

text \<open>
  Claim C2. For a strictly ascending sequence \<open>S\<close> and a record \<open>r\<close> whose identifier
  does not occur in \<open>S\<close>, \<open>insertTodoSorted\<close> returns without a panic a strictly
  ascending sequence of length \<open>len(S) + 1\<close> that holds \<open>r\<close> and the elements of \<open>S\<close>,
  each exactly once; \<open>r\<close> stands at the insertion point \<open>p\<close> (all identifiers before
  \<open>p\<close> are smaller, all from \<open>p\<close> on are greater), the elements before \<open>p\<close> keep their
  index and the elements from \<open>p\<close> on move right by one.
\<close>

theorem insertTodoSorted_correct:
  assumes "strictly_ascending S" and "ID r \<notin> ID ` set S"
  shows "\<exists>res p. insertTodoSorted S r = Inr res \<and> strictly_ascending res \<and>
           length res = length S + 1 \<and> mset res = add_mset r (mset S) \<and> distinct res \<and>
           p \<le> length S \<and>
           (\<forall>k<p. ID (S ! k) < ID r) \<and>
           (\<forall>k. p \<le> k \<and> k < length S \<longrightarrow> ID r < ID (S ! k)) \<and>
           (\<forall>k<p. res ! k = S ! k) \<and> res ! p = r \<and>
           (\<forall>k. p \<le> k \<and> k < length S \<longrightarrow> res ! (k + 1) = S ! k)"
proof -
  have sorted: "sorted_wrt (\<lambda>a b. ID a < ID b) S"
    using assms(1) by (simp add: strictly_ascending_def)
  obtain p where p: "p \<le> length S"
    and res: "insertTodoSorted S r = Inr (take p S @ [r] @ drop p S)"
    and below: "\<forall>k<p. ID (S ! k) < ID r"
    and above: "\<forall>k. p \<le> k \<and> k < length S \<longrightarrow> ID r \<le> ID (S ! k)"
  proof (cases "S = []")
    case True
    then have "insertTodoSorted S r = Inr (take 0 S @ [r] @ drop 0 S)"
      by (simp add: insertTodoSorted_def)
    with True that [of 0] show ?thesis by simp
  next
    case False
    obtain q where q: "insert_loop S (ID r) 0 (int (length S)) = Inr (int q)"
      "q \<le> length S" "\<forall>k<q. ID (S ! k) < ID r"
      "\<forall>k. q \<le> k \<and> k < length S \<longrightarrow> ID r \<le> ID (S ! k)"
      using insert_loop_correct [OF sorted, of 0 "int (length S)" "ID r"] by auto
    from insertTodoSorted_at [OF q(1) q(2) False] q that [of q] show ?thesis by simp
  qed
  have above': "\<forall>k. p \<le> k \<and> k < length S \<longrightarrow> ID r < ID (S ! k)"
  proof (intro allI impI)
    fix k assume k: "p \<le> k \<and> k < length S"
    then have "ID (S ! k) \<in> ID ` set S" by simp
    with assms(2) have "ID (S ! k) \<noteq> ID r" by metis
    with above k show "ID r < ID (S ! k)" by force
  qed
  let ?res = "take p S @ [r] @ drop p S"
  have asc: "strictly_ascending ?res"
    by (rule strictly_ascending_insert [OF assms(1) p below above'])
  have len: "length ?res = length S + 1"
    using p by simp
  have "mset (take p S) + mset (drop p S) = mset S"
    by (metis append_take_drop_id mset_append)
  then have ms: "mset ?res = add_mset r (mset S)"
    by simp
  have pre: "\<forall>k<p. ?res ! k = S ! k"
    using p by (simp add: nth_append)
  have at: "?res ! p = r"
    using p by (simp add: nth_append)
  have post: "\<forall>k. p \<le> k \<and> k < length S \<longrightarrow> ?res ! (k + 1) = S ! k"
    using p by (auto simp: nth_append nth_Cons')
  show ?thesis
    using res asc len ms strictly_ascending_distinct [OF asc] p below above' pre at post
    by blast
qed

theorem insertTodoSorted_correct_witness:
  "strictly_ascending [\<lparr>ID = 1, Contents = ''a''\<rparr>, \<lparr>ID = 3, Contents = ''b''\<rparr>] \<and>
   ID \<lparr>ID = 2, Contents = ''c''\<rparr> \<notin> ID ` set [\<lparr>ID = 1, Contents = ''a''\<rparr>, \<lparr>ID = 3, Contents = ''b''\<rparr>] \<and>
   (\<exists>res. insertTodoSorted [\<lparr>ID = 1, Contents = ''a''\<rparr>, \<lparr>ID = 3, Contents = ''b''\<rparr>]
            \<lparr>ID = 2, Contents = ''c''\<rparr> = Inr res \<and>
          strictly_ascending res \<and> length res = 3 \<and> distinct res)"
proof -
  have h1: "strictly_ascending [\<lparr>ID = 1, Contents = ''a''\<rparr>, \<lparr>ID = 3, Contents = ''b''\<rparr>]"
    by (simp add: strictly_ascending_def)
  have h2: "ID \<lparr>ID = 2, Contents = ''c''\<rparr> \<notin>
            ID ` set [\<lparr>ID = 1, Contents = ''a''\<rparr>, \<lparr>ID = 3, Contents = ''b''\<rparr>]"
    by simp
  from insertTodoSorted_correct [OF h1 h2] h1 h2 show ?thesis
    by auto
qed

lemma binarySearch_in_range:
  "\<exists>i. binarySearchTodoByID todos t = Inr i \<and>
       (i = - 1 \<or> (0 \<le> i \<and> i < int (length todos) \<and> ID (todos ! nat i) = t))"
  using binarySearch_loop_sound [of 0 "int (length todos) - 1" todos t]
  by (auto simp: binarySearchTodoByID_def)

lemma binarySearch_absent:
  assumes "t \<notin> ID ` set todos"
  shows "binarySearchTodoByID todos t = Inr (- 1)"
proof -
  obtain i where i: "binarySearchTodoByID todos t = Inr i"
    "i = - 1 \<or> (0 \<le> i \<and> i < int (length todos) \<and> ID (todos ! nat i) = t)"
    using binarySearch_in_range by blast
  have "i = - 1"
  proof (rule ccontr)
    assume "i \<noteq> - 1"
    with i(2) have "nat i < length todos" "ID (todos ! nat i) = t" by auto
    then have "t \<in> ID ` set todos" by (metis imageI nth_mem)
    with assms show False by simp
  qed
  with i(1) show ?thesis by simp
qed


lemma removeAt_in_range:
  assumes "0 \<le> i" and "i < int (length todos)"
  shows "removeAt todos i = Inr (take (nat i) todos @ drop (nat i + 1) todos)"
proof -
  have "0 < int (length todos)" using assms by linarith
  then show ?thesis
    using assms by (simp add: removeAt_def slice_to_def slice_from_def nat_add_distrib)
qed

lemma strictly_ascending_remove:
  assumes "strictly_ascending S" and "k < length S"
  shows "strictly_ascending (take k S @ drop (k + 1) S)"
    and "ID (S ! k) \<notin> ID ` set (take k S @ drop (k + 1) S)"
proof -
  have "S = take k S @ [S ! k] @ drop (k + 1) S"
    using assms(2) by (simp add: id_take_nth_drop)
  then have "sorted_wrt (\<lambda>a b. ID a < ID b) (take k S @ [S ! k] @ drop (k + 1) S)"
    using assms(1) by (simp add: strictly_ascending_def)
  then have parts: "sorted_wrt (\<lambda>a b. ID a < ID b) (take k S)"
    "sorted_wrt (\<lambda>a b. ID a < ID b) (drop (k + 1) S)"
    "\<forall>x\<in>set (take k S). ID x < ID (S ! k)"
    "\<forall>y\<in>set (drop (k + 1) S). ID (S ! k) < ID y"
    "\<forall>x\<in>set (take k S). \<forall>y\<in>set (drop (k + 1) S). ID x < ID y"
    by (auto simp: sorted_wrt_append)
  show "strictly_ascending (take k S @ drop (k + 1) S)"
    using parts(1,2,5) by (simp add: strictly_ascending_def sorted_wrt_append)
  show "ID (S ! k) \<notin> ID ` set (take k S @ drop (k + 1) S)"
    using parts(3,4) by fastforce
qed

text \<open>
  Claim C7. For a strictly ascending sequence and a valid index into it, the excision of
  \<open>DeleteTodo\<close> returns without a panic the sequence without the element at that index;
  this sequence is strictly ascending, and \<open>binarySearchTodoByID\<close> on it returns \<open>-1\<close>
  for the identifier of the removed record.
\<close>

theorem removeAt_correct:
  assumes "strictly_ascending S" and "0 \<le> i" and "i < int (length S)"
  shows "\<exists>res. removeAt S i = Inr res \<and> res = take (nat i) S @ drop (nat i + 1) S \<and>
           strictly_ascending res \<and>
           binarySearchTodoByID res (ID (S ! nat i)) = Inr (- 1)"
proof -
  have k: "nat i < length S" using assms(2,3) by simp
  show ?thesis
    using removeAt_in_range [OF assms(2,3)]
      strictly_ascending_remove(1) [OF assms(1) k]
      binarySearch_absent [OF strictly_ascending_remove(2) [OF assms(1) k]]
    by simp
qed

theorem removeAt_correct_witness:
  "strictly_ascending
     [\<lparr>ID = 1, Contents = ''a''\<rparr>, \<lparr>ID = 3, Contents = ''b''\<rparr>, \<lparr>ID = 5, Contents = ''c''\<rparr>] \<and>
   (0::int) \<le> 1 \<and>
   (1::int) < int (length [\<lparr>ID = 1, Contents = ''a''\<rparr>, \<lparr>ID = 3, Contents = ''b''\<rparr>, \<lparr>ID = 5, Contents = ''c''\<rparr>]) \<and>
   removeAt [\<lparr>ID = 1, Contents = ''a''\<rparr>, \<lparr>ID = 3, Contents = ''b''\<rparr>, \<lparr>ID = 5, Contents = ''c''\<rparr>] 1
     = Inr [\<lparr>ID = 1, Contents = ''a''\<rparr>, \<lparr>ID = 5, Contents = ''c''\<rparr>] \<and>
   strictly_ascending [\<lparr>ID = 1, Contents = ''a''\<rparr>, \<lparr>ID = 5, Contents = ''c''\<rparr>] \<and>
   binarySearchTodoByID [\<lparr>ID = 1, Contents = ''a''\<rparr>, \<lparr>ID = 5, Contents = ''c''\<rparr>] 3 = Inr (- 1)"
proof -
  have h: "strictly_ascending
     [\<lparr>ID = 1, Contents = ''a''\<rparr>, \<lparr>ID = 3, Contents = ''b''\<rparr>, \<lparr>ID = 5, Contents = ''c''\<rparr>]"
    by (simp add: strictly_ascending_def)
  have i: "(0::int) \<le> 1"
    "(1::int) < int (length [\<lparr>ID = 1, Contents = ''a''\<rparr>, \<lparr>ID = 3, Contents = ''b''\<rparr>, \<lparr>ID = 5, Contents = ''c''\<rparr>])"
    by simp_all
  from removeAt_correct [OF h i] h i show ?thesis
    by simp
qed

lemma DeleteTodo_loaded_no_panic:
  "fst (DeleteTodo_loaded st id' todos) \<noteq> Some (RuntimePanic p)"
proof -
  obtain i where i: "binarySearchTodoByID todos id' = Inr i"
    "i = - 1 \<or> (0 \<le> i \<and> i < int (length todos) \<and> ID (todos ! nat i) = id')"
    using binarySearch_in_range by blast
  show ?thesis
  proof (cases "i = - 1")
    case True
    with i(1) show ?thesis by (simp add: DeleteTodo_loaded_def)
  next
    case False
    with i(2) have "removeAt todos i = Inr (take (nat i) todos @ drop (nat i + 1) todos)"
      by (simp add: removeAt_in_range)
    with i(1) False show ?thesis
      by (simp add: DeleteTodo_loaded_def saveTodos_def)
  qed
qed

text \<open>
  Claim C10. \<open>binarySearchTodoByID\<close> on the empty sequence returns \<open>-1\<close> and reads no
  element (a read would be the panic of \<open>index\<close>). On every sequence, sorted or not, it
  returns \<open>-1\<close> or an index inside the sequence, so that where \<open>DeleteTodo\<close> allocates,
  the sequence is not empty, the capacity \<open>len(todos) - 1\<close> is not negative and both
  slice expressions are within bounds. \<open>DeleteTodo\<close> never panics.
\<close>

theorem DeleteTodo_never_panics:
  "binarySearchTodoByID [] t = Inr (- 1) \<and>
   (\<exists>i. binarySearchTodoByID todos t = Inr i \<and>
        (i = - 1 \<or>
         (0 \<le> i \<and> i < int (length todos) \<and> 0 \<le> int (length todos) - 1 \<and>
          removeAt todos i = Inr (take (nat i) todos @ drop (nat i + 1) todos)))) \<and>
   (\<forall>p. fst (DeleteTodo st id') \<noteq> Some (RuntimePanic p))"
proof -
  have empty: "binarySearchTodoByID [] t = Inr (- 1)"
    by (simp add: binarySearch_absent)
  obtain i where i: "binarySearchTodoByID todos t = Inr i"
    "i = - 1 \<or> (0 \<le> i \<and> i < int (length todos) \<and> ID (todos ! nat i) = t)"
    using binarySearch_in_range by blast
  have find: "i = - 1 \<or>
         (0 \<le> i \<and> i < int (length todos) \<and> 0 \<le> int (length todos) - 1 \<and>
          removeAt todos i = Inr (take (nat i) todos @ drop (nat i + 1) todos))"
    using i(2) removeAt_in_range [of i todos] by auto
  have del: "fst (DeleteTodo st id') \<noteq> Some (RuntimePanic p)" for p
    using DeleteTodo_loaded_no_panic [of st id' _ p]
    by (simp add: DeleteTodo_def split: sum.splits)
  from empty i(1) find del show ?thesis by blast
qed

section \<open>Properties of the persistence layer and the service operations\<close>

lemma strictly_ascending_sorted: "strictly_ascending S \<Longrightarrow> sorted (map ID S)"
  unfolding strictly_ascending_def
  by (induction S) auto

lemma sort_strictly_ascending: "strictly_ascending S \<Longrightarrow> sort_key ID S = S"
  by (simp add: strictly_ascending_sorted sort_key_id_if_sorted)

lemma coerceUTF8_valid: "validUTF8 s \<Longrightarrow> coerceUTF8 s = s"
proof (induction s rule: validUTF8.induct)
  case (1 s)
  show ?case
  proof (cases "s = []")
    case True
    then show ?thesis by (subst coerceUTF8.simps) simp
  next
    case False
    with "1.prems" have w: "rune_width s \<noteq> 0" and rest: "validUTF8 (drop (rune_width s) s)"
      by (subst (asm) validUTF8.simps, simp split: if_splits)+
    have "coerceUTF8 s = take (rune_width s) s @ coerceUTF8 (drop (rune_width s) s)"
      using False w by (subst coerceUTF8.simps) simp
    also have "\<dots> = take (rune_width s) s @ drop (rune_width s) s"
      using "1.IH" [OF False w rest] by simp
    finally show ?thesis by simp
  qed
qed

lemma stored_Todo_valid: "validUTF8 (Contents t) \<Longrightarrow> stored_Todo t = t"
  by (simp add: stored_Todo_def coerceUTF8_valid)

lemma map_stored_Todo_valid: "\<forall>t\<in>set S. validUTF8 (Contents t) \<Longrightarrow> map stored_Todo S = S"
  by (simp add: map_idI stored_Todo_valid)

text \<open>
  Claim C6. Every sequence that \<open>loadTodos\<close> returns is sorted ascending by identifier,
  whatever the order of the records in the backing file; it holds the records of the
  file, each as often as the file does.
\<close>

theorem loadTodos_sorted:
  "loadTodos st = Inr todos \<Longrightarrow>
   sorted (map ID todos) \<and>
   (\<forall>xs. backing_file st = Some (TodoArray xs) \<longrightarrow> mset todos = mset xs)"
  by (auto simp: loadTodos_def split: if_splits option.splits payload.splits)

theorem loadTodos_sorted_witness:
  "loadTodos \<lparr>backing_file = Some (TodoArray [\<lparr>ID = 3, Contents = ''c''\<rparr>, \<lparr>ID = 1, Contents = ''a''\<rparr>,
                 \<lparr>ID = 2, Contents = ''b''\<rparr>]),
              open_fails = False, create_fails = False, write_fails = False\<rparr>
     = Inr [\<lparr>ID = 1, Contents = ''a''\<rparr>, \<lparr>ID = 2, Contents = ''b''\<rparr>, \<lparr>ID = 3, Contents = ''c''\<rparr>] \<and>
   sorted (map ID [\<lparr>ID = 1, Contents = ''a''\<rparr>, \<lparr>ID = 2, Contents = ''b''\<rparr>, \<lparr>ID = 3, Contents = ''c''\<rparr>])"
proof -
  have h: "loadTodos \<lparr>backing_file = Some (TodoArray [\<lparr>ID = 3, Contents = ''c''\<rparr>,
                 \<lparr>ID = 1, Contents = ''a''\<rparr>, \<lparr>ID = 2, Contents = ''b''\<rparr>]),
              open_fails = False, create_fails = False, write_fails = False\<rparr>
     = Inr [\<lparr>ID = 1, Contents = ''a''\<rparr>, \<lparr>ID = 2, Contents = ''b''\<rparr>, \<lparr>ID = 3, Contents = ''c''\<rparr>]"
    by (simp add: loadTodos_def)
  from loadTodos_sorted [OF h] h show ?thesis by simp
qed

text \<open>
  Claim C3 as stated fails on two inputs. The JSON encoder writes U+FFFD for every byte
  of a string that is not part of a valid UTF-8 encoding, so a record whose contents are
  the single byte FF is loaded with the three bytes of U+FFFD as its contents. And where
  \<open>os.Create\<close> fails, \<open>saveTodos\<close> returns the error and the next \<open>loadTodos\<close> returns
  what the file held before.
\<close>

theorem save_load_roundtrip_counterexample:
  "fst (saveTodos empty_store [\<lparr>ID = 1, Contents = [CHR 0xFF]\<rparr>]) = None \<and>
   loadTodos (snd (saveTodos empty_store [\<lparr>ID = 1, Contents = [CHR 0xFF]\<rparr>]))
     = Inr [\<lparr>ID = 1, Contents = [CHR 0xEF, CHR 0xBF, CHR 0xBD]\<rparr>] \<and>
   strictly_ascending [\<lparr>ID = 1, Contents = [CHR 0xFF]\<rparr>] \<and>
   [\<lparr>ID = 1, Contents = [CHR 0xEF, CHR 0xBF, CHR 0xBD]\<rparr>] \<noteq> [\<lparr>ID = 1, Contents = [CHR 0xFF]\<rparr>] \<and>
   fst (saveTodos \<lparr>backing_file = None, open_fails = False, create_fails = True,
                   write_fails = False\<rparr> [\<lparr>ID = 1, Contents = ''a''\<rparr>]) = Some CreateError \<and>
   loadTodos (snd (saveTodos \<lparr>backing_file = None, open_fails = False, create_fails = True,
                   write_fails = False\<rparr> [\<lparr>ID = 1, Contents = ''a''\<rparr>])) = Inr []"
  by code_simp

text \<open>
  Claim C3, amended. For a strictly ascending sequence \<open>S\<close> whose contents are valid
  UTF-8, when neither \<open>os.Create\<close>, the write of the encoder nor \<open>os.Open\<close> fails,
  \<open>saveTodos\<close> succeeds and \<open>loadTodos\<close> on the store it leaves returns \<open>S\<close>: the same
  elements in the same order.
\<close>

theorem save_load_roundtrip:
  assumes "strictly_ascending S" and "\<forall>t\<in>set S. validUTF8 (Contents t)"
    and "\<not> create_fails st" and "\<not> write_fails st" and "\<not> open_fails st"
  shows "fst (saveTodos st S) = None \<and> loadTodos (snd (saveTodos st S)) = Inr S"
  using assms
  by (simp add: saveTodos_def loadTodos_def map_stored_Todo_valid sort_strictly_ascending)

lemma validUTF8_examples:
  "validUTF8 ''a''" "validUTF8 ''b''" "validUTF8 ''x''"
  by code_simp+

theorem save_load_roundtrip_witness:
  "strictly_ascending [\<lparr>ID = 1, Contents = ''a''\<rparr>, \<lparr>ID = 4, Contents = ''b''\<rparr>] \<and>
   validUTF8 (Contents \<lparr>ID = 1, Contents = ''a''\<rparr>) \<and>
   validUTF8 (Contents \<lparr>ID = 4, Contents = ''b''\<rparr>) \<and>
   \<not> create_fails empty_store \<and> \<not> write_fails empty_store \<and> \<not> open_fails empty_store \<and>
   fst (saveTodos empty_store [\<lparr>ID = 1, Contents = ''a''\<rparr>, \<lparr>ID = 4, Contents = ''b''\<rparr>]) = None \<and>
   loadTodos (snd (saveTodos empty_store [\<lparr>ID = 1, Contents = ''a''\<rparr>, \<lparr>ID = 4, Contents = ''b''\<rparr>]))
     = Inr [\<lparr>ID = 1, Contents = ''a''\<rparr>, \<lparr>ID = 4, Contents = ''b''\<rparr>]"
proof -
  have h: "strictly_ascending [\<lparr>ID = 1, Contents = ''a''\<rparr>, \<lparr>ID = 4, Contents = ''b''\<rparr>]"
    by (simp add: strictly_ascending_def)
  have v: "\<forall>t\<in>set [\<lparr>ID = 1, Contents = ''a''\<rparr>, \<lparr>ID = 4, Contents = ''b''\<rparr>].
             validUTF8 (Contents t)"
    by (simp add: validUTF8_examples)
  have e: "\<not> create_fails empty_store" "\<not> write_fails empty_store" "\<not> open_fails empty_store"
    by (simp_all add: empty_store_def)
  from save_load_roundtrip [OF h v e] h v e show ?thesis by simp
qed

lemma TrimSpace_blank: "TrimSpace ''   '' = []"
  by code_simp

text \<open>
  Claim C8. When the contents of the request are empty after \<open>strings.TrimSpace\<close>,
  \<open>CreateTodo\<close> fails with the validation error and leaves the store as it was: the
  backing file, and with it the sequence \<open>loadTodos\<close> returns, are the same before and
  after the call.
\<close>

theorem CreateTodo_rejects_blank:
  assumes "TrimSpace (req_Contents req) = []"
  shows "CreateTodo st req = (Inl ContentsEmpty, st) \<and>
         backing_file (snd (CreateTodo st req)) = backing_file st \<and>
         loadTodos (snd (CreateTodo st req)) = loadTodos st"
  using assms by (simp add: CreateTodo_def validateTodoRequest_def)

theorem CreateTodo_rejects_blank_witness:
  "TrimSpace (req_Contents \<lparr>req_ID = 0, req_Contents = ''   ''\<rparr>) = [] \<and>
   CreateTodo empty_store \<lparr>req_ID = 0, req_Contents = ''   ''\<rparr> = (Inl ContentsEmpty, empty_store)"
proof -
  have h: "TrimSpace (req_Contents \<lparr>req_ID = 0, req_Contents = ''   ''\<rparr>) = []"
    by (simp add: TrimSpace_blank)
  from CreateTodo_rejects_blank [OF h, of empty_store] h show ?thesis by simp
qed




lemma getNextID_loop_fold: "getNextID_loop maxID todos = fold max (map ID todos) maxID"
  by (induction todos arbitrary: maxID) (simp_all add: max_def)

lemma getNextID_loop_Max: "getNextID_loop maxID todos = Max (insert maxID (ID ` set todos))"
proof -
  have "Max (set (maxID # map ID todos)) = fold max (map ID todos) maxID"
    by (rule Max.set_eq_fold)
  then show ?thesis by (simp add: getNextID_loop_fold)
qed

lemma wrap_int_id: "- (2 ^ 63) \<le> x \<Longrightarrow> x < 2 ^ 63 \<Longrightarrow> wrap_int x = x"
  by (simp add: wrap_int_def)

text \<open>
  Claim C5 as stated fails on two sequences: where every identifier is negative the
  allocator returns 1, not one more than the maximum, because \<open>maxID\<close> starts at 0 for
  every sequence and not only for the empty one; and where the maximum is the largest
  \<open>int\<close>, \<open>maxID + 1\<close> wraps around to the smallest.
\<close>

theorem getNextID_counterexample:
  "getNextID [\<lparr>ID = - 5, Contents = ''a''\<rparr>] = 1 \<and>
   1 + Max (ID ` set [\<lparr>ID = - 5, Contents = ''a''\<rparr>]) = - 4 \<and>
   getNextID [\<lparr>ID = 9223372036854775807, Contents = ''a''\<rparr>] = - 9223372036854775808 \<and>
   1 + Max (ID ` set [\<lparr>ID = 9223372036854775807, Contents = ''a''\<rparr>]) = 9223372036854775808"
  by (simp add: getNextID_def wrap_int_def)

lemma getNextID_formula:
  assumes "\<forall>t\<in>set todos. ID t < 2 ^ 63 - 1"
  shows "getNextID todos = 1 + Max (insert 0 (ID ` set todos))"
proof -
  let ?M = "Max (insert 0 (ID ` set todos))"
  have "?M \<in> insert 0 (ID ` set todos)"
    by (rule Max_in) simp_all
  then have "?M < 2 ^ 63 - 1" using assms by auto
  moreover have "0 \<le> ?M" by simp
  ultimately have "wrap_int (?M + 1) = ?M + 1"
    by (intro wrap_int_id) simp_all
  then show ?thesis by (simp add: getNextID_def getNextID_loop_Max)
qed

lemma create_first:
  assumes "validateTodoRequest r = None"
  shows "CreateTodo empty_store r =
     (Inr \<lparr>ID = 1, Contents = TrimSpace (req_Contents r)\<rparr>,
      empty_store\<lparr>backing_file :=
        Some (TodoArray [\<lparr>ID = 1, Contents = coerceUTF8 (TrimSpace (req_Contents r))\<rparr>])\<rparr>)"
  using assms
  by (simp add: CreateTodo_def loadTodos_def empty_store_def CreateTodo_loaded_def
      getNextID_def wrap_int_def insertTodoSorted_def saveTodos_def stored_Todo_def Let_def)

lemma create_second:
  assumes "validateTodoRequest r = None"
  shows "CreateTodo (empty_store\<lparr>backing_file := Some (TodoArray [\<lparr>ID = 1, Contents = c\<rparr>])\<rparr>) r =
     (Inr \<lparr>ID = 2, Contents = TrimSpace (req_Contents r)\<rparr>,
      empty_store\<lparr>backing_file :=
        Some (TodoArray [\<lparr>ID = 1, Contents = coerceUTF8 c\<rparr>,
                         \<lparr>ID = 2, Contents = coerceUTF8 (TrimSpace (req_Contents r))\<rparr>])\<rparr>)"
  using assms
  by (simp add: CreateTodo_def loadTodos_def empty_store_def CreateTodo_loaded_def
      getNextID_def wrap_int_def insertTodoSorted_def saveTodos_def stored_Todo_def
      insert_loop.simps index_def quot_def slice_to_def slice_from_def copy_at_def
      assign_def Let_def)

lemma delete_first:
  "DeleteTodo (empty_store\<lparr>backing_file :=
        Some (TodoArray [\<lparr>ID = 1, Contents = c\<rparr>, \<lparr>ID = 2, Contents = d\<rparr>])\<rparr>) 1 =
     (None, empty_store\<lparr>backing_file := Some (TodoArray [\<lparr>ID = 2, Contents = coerceUTF8 d\<rparr>])\<rparr>)"
  by (simp add: DeleteTodo_def loadTodos_def empty_store_def DeleteTodo_loaded_def
      binarySearchTodoByID_def binarySearch_loop.simps removeAt_def saveTodos_def
      stored_Todo_def index_def quot_def slice_to_def slice_from_def)

lemma create_third:
  assumes "validateTodoRequest r = None"
  shows "CreateTodo (empty_store\<lparr>backing_file := Some (TodoArray [\<lparr>ID = 2, Contents = d\<rparr>])\<rparr>) r =
     (Inr \<lparr>ID = 3, Contents = TrimSpace (req_Contents r)\<rparr>,
      empty_store\<lparr>backing_file :=
        Some (TodoArray [\<lparr>ID = 2, Contents = coerceUTF8 d\<rparr>,
                         \<lparr>ID = 3, Contents = coerceUTF8 (TrimSpace (req_Contents r))\<rparr>])\<rparr>)"
  using assms
  by (simp add: CreateTodo_def loadTodos_def empty_store_def CreateTodo_loaded_def
      getNextID_def wrap_int_def insertTodoSorted_def saveTodos_def stored_Todo_def
      insert_loop.simps index_def quot_def slice_to_def slice_from_def copy_at_def
      assign_def Let_def)

text \<open>
  Claim C5, amended. For every sequence of records whose identifiers are below the largest
  \<open>int\<close>, \<open>getNextID\<close> returns 1 plus the maximum of 0 and the identifiers of the
  sequence; that is 1 on the empty sequence and 1 plus the maximum identifier on every
  sequence that has an identifier that is not negative. \<open>CreateTodo\<close> on the empty store
  assigns 1, the next \<open>CreateTodo\<close> assigns 2, and after \<open>DeleteTodo\<close> of 1 the next
  \<open>CreateTodo\<close> assigns 3.
\<close>

theorem getNextID_correct:
  assumes "\<forall>t\<in>set todos. ID t < 2 ^ 63 - 1"
    and "validateTodoRequest r1 = None" and "validateTodoRequest r2 = None"
    and "validateTodoRequest r3 = None"
  shows "getNextID todos = 1 + Max (insert 0 (ID ` set todos)) \<and>
         (todos = [] \<longrightarrow> getNextID todos = 1 + 0) \<and>
         ((\<exists>t\<in>set todos. 0 \<le> ID t) \<longrightarrow> getNextID todos = 1 + Max (ID ` set todos)) \<and>
         (\<exists>t1 s1 t2 s2 s3 t3 s4.
            CreateTodo empty_store r1 = (Inr t1, s1) \<and> ID t1 = 1 \<and>
            CreateTodo s1 r2 = (Inr t2, s2) \<and> ID t2 = 2 \<and>
            DeleteTodo s2 1 = (None, s3) \<and>
            CreateTodo s3 r3 = (Inr t3, s4) \<and> ID t3 = 3)"
proof -
  have formula: "getNextID todos = 1 + Max (insert 0 (ID ` set todos))"
    by (rule getNextID_formula [OF assms(1)])
  have empty: "todos = [] \<longrightarrow> getNextID todos = 1 + 0"
    by (simp add: getNextID_def wrap_int_def)
  have nonneg: "(\<exists>t\<in>set todos. 0 \<le> ID t) \<longrightarrow> getNextID todos = 1 + Max (ID ` set todos)"
  proof
    assume "\<exists>t\<in>set todos. 0 \<le> ID t"
    then obtain t where t: "t \<in> set todos" "0 \<le> ID t" by blast
    then have ne: "ID ` set todos \<noteq> {}" by auto
    have "ID t \<le> Max (ID ` set todos)" using t(1) by simp
    with t(2) have "0 \<le> Max (ID ` set todos)" by linarith
    then have "Max (insert 0 (ID ` set todos)) = Max (ID ` set todos)"
      using ne by (simp add: max_def)
    with formula show "getNextID todos = 1 + Max (ID ` set todos)" by simp
  qed
  have scenario: "\<exists>t1 s1 t2 s2 s3 t3 s4.
            CreateTodo empty_store r1 = (Inr t1, s1) \<and> ID t1 = 1 \<and>
            CreateTodo s1 r2 = (Inr t2, s2) \<and> ID t2 = 2 \<and>
            DeleteTodo s2 1 = (None, s3) \<and>
            CreateTodo s3 r3 = (Inr t3, s4) \<and> ID t3 = 3"
    using create_first [OF assms(2)]
      create_second [OF assms(3), of "coerceUTF8 (TrimSpace (req_Contents r1))"]
      delete_first [of "coerceUTF8 (coerceUTF8 (TrimSpace (req_Contents r1)))"
        "coerceUTF8 (TrimSpace (req_Contents r2))"]
      create_third [OF assms(4), of "coerceUTF8 (coerceUTF8 (TrimSpace (req_Contents r2)))"]
    by (metis Todo.select_convs(1))
  from formula empty nonneg scenario show ?thesis by blast
qed

lemma TrimSpace_examples:
  "TrimSpace ''buy milk'' = ''buy milk''" "TrimSpace ''walk dog'' = ''walk dog''"
  by code_simp+

theorem getNextID_correct_witness:
  "ID \<lparr>ID = 1, Contents = ''a''\<rparr> < 2 ^ 63 - 1 \<and> ID \<lparr>ID = 4, Contents = ''b''\<rparr> < 2 ^ 63 - 1 \<and>
   validateTodoRequest \<lparr>req_ID = 0, req_Contents = ''buy milk''\<rparr> = None \<and>
   validateTodoRequest \<lparr>req_ID = 0, req_Contents = ''walk dog''\<rparr> = None \<and>
   getNextID [\<lparr>ID = 1, Contents = ''a''\<rparr>, \<lparr>ID = 4, Contents = ''b''\<rparr>] = 5"
proof -
  have h1: "\<forall>t\<in>set [\<lparr>ID = 1, Contents = ''a''\<rparr>, \<lparr>ID = 4, Contents = ''b''\<rparr>]. ID t < 2 ^ 63 - 1"
    by simp
  have h2: "validateTodoRequest \<lparr>req_ID = 0, req_Contents = ''buy milk''\<rparr> = None"
    by (simp add: validateTodoRequest_def TrimSpace_examples)
  have h3: "validateTodoRequest \<lparr>req_ID = 0, req_Contents = ''walk dog''\<rparr> = None"
    by (simp add: validateTodoRequest_def TrimSpace_examples)
  from getNextID_correct [OF h1 h2 h3 h2] h1 h2 h3 show ?thesis
    by simp
qed

section \<open>Concurrent write operations\<close>

text \<open>
  A caller that runs both of its sections with no other caller in between does what the
  sequential function does.
\<close>

lemma step_alone:
  assumes "i < length callers" and "callers ! i = Pending op"
  shows "step i (step i (st, callers)) =
         (snd (sequential st op), callers[i := Finished (fst (sequential st op))])"
proof (cases op)
  case (Create req)
  with assms show ?thesis
    by (auto simp: step_def sequential_def CreateTodo_def
        split: option.splits sum.splits prod.splits)
next
  case (Update id' req)
  with assms show ?thesis
    by (auto simp: step_def sequential_def UpdateTodo_def
        split: option.splits sum.splits prod.splits)
next
  case (Delete id')
  with assms show ?thesis
    by (auto simp: step_def sequential_def DeleteTodo_def
        split: option.splits sum.splits prod.splits)
qed

text \<open>
  Claim C4. The load, mutate, save cycle of a write operation is not one exclusive
  section: the read lock of \<open>loadTodos\<close> is released before \<open>saveTodos\<close> takes the write
  lock. Two calls of \<open>CreateTodo\<close> on the empty store that both load before either
  saves both read the empty sequence, both return a record with identifier 1, and the
  file holds only the record of the call that saved last; run one after the other they
  leave both records, with identifiers 1 and 2.
\<close>

theorem lost_update:
  "run [0, 1, 0, 1]
     (empty_store,
      [Pending (Create \<lparr>req_ID = 0, req_Contents = ''buy milk''\<rparr>),
       Pending (Create \<lparr>req_ID = 0, req_Contents = ''walk dog''\<rparr>)])
   = (\<lparr>backing_file = Some (TodoArray [\<lparr>ID = 1, Contents = ''walk dog''\<rparr>]),
       open_fails = False, create_fails = False, write_fails = False\<rparr>,
      [Finished (Returned \<lparr>ID = 1, Contents = ''buy milk''\<rparr>),
       Finished (Returned \<lparr>ID = 1, Contents = ''walk dog''\<rparr>)]) \<and>
   run [0, 0, 1, 1]
     (empty_store,
      [Pending (Create \<lparr>req_ID = 0, req_Contents = ''buy milk''\<rparr>),
       Pending (Create \<lparr>req_ID = 0, req_Contents = ''walk dog''\<rparr>)])
   = (\<lparr>backing_file = Some (TodoArray [\<lparr>ID = 1, Contents = ''buy milk''\<rparr>,
                                        \<lparr>ID = 2, Contents = ''walk dog''\<rparr>]),
       open_fails = False, create_fails = False, write_fails = False\<rparr>,
      [Finished (Returned \<lparr>ID = 1, Contents = ''buy milk''\<rparr>),
       Finished (Returned \<lparr>ID = 2, Contents = ''walk dog''\<rparr>)])"
  by code_simp

end
